theory Spec2Isabelle
  imports Complex_Main
begin

section \<open>Kinetic schemes for biomass pyrolysis (Blasi 1993, Liden 1988)\<close>

text \<open>
  The three scripts \<^verbatim>\<open>blasi_1993.py\<close>, \<^verbatim>\<open>kn_liden_1988.py\<close> and
  \<^verbatim>\<open>liden_1988.py\<close> each define one or two explicit-Euler step functions and a
  driver loop that fills arrays of concentrations.

  Python floats are modelled as \<^typ>\<open>real\<close>.  Sums, products and quotients are
  exact: rounding to the nearest double is outside the model.  The exponential is the one
  operation whose double result leaves the range of the exact value for inputs the
  scripts accept, and there the double result is written out (\<open>np_exp\<close> below).
  Decimal literals of the source are the rationals they denote (\<^verbatim>\<open>0.008314\<close> is
  \<open>8314 / 1000000\<close>).
  The selector \<^verbatim>\<open>s\<close> is a Python integer, an \<^typ>\<open>int\<close>.

  Exceptions are values: a step function returns \<open>py_error + result\<close>.
\<close>

datatype py_error = ZeroDivisionError | UnboundLocalError | ValueError

subsection \<open>Arrhenius rate constants\<close>

text \<open>\<^verbatim>\<open>R = 0.008314\<close>, the universal gas constant of all three files.\<close>

definition R :: real where
  "R = 8314 / 1000000"

text \<open>
  \<^verbatim>\<open>np.exp\<close> on IEEE doubles, at the two ends where its result is not a rounded
  neighbour of the exact value inside the open interval from 0 to 1.  The positive
  doubles start at \<open>2\<^sup>-\<^sup>1\<^sup>0\<^sup>7\<^sup>4\<close>; an exact value of at most half of that,
  \<open>2\<^sup>-\<^sup>1\<^sup>0\<^sup>7\<^sup>5\<close> (an argument below about \<open>-745.13\<close>), is returned as \<open>0.0\<close>.  The
  doubles next to 1 are \<open>1 - 2\<^sup>-\<^sup>5\<^sup>3\<close> and \<open>1 + 2\<^sup>-\<^sup>5\<^sup>2\<close>; an exact value from
  \<open>1 - 2\<^sup>-\<^sup>5\<^sup>4\<close> to \<open>1 + 2\<^sup>-\<^sup>5\<^sup>3\<close> is returned as \<open>1.0\<close>.  Everywhere else the exact
  value stands for its rounded double.  (Above about \<open>709.78\<close>, which the rate constants
  reach only with a negative temperature, the double result is \<open>inf\<close>; \<^typ>\<open>real\<close> has
  no such value, and the properties of the rate constants below are stated for
  \<open>T > 0\<close>.)
\<close>

definition np_exp :: "real \<Rightarrow> real" where
  "np_exp x =
     (if exp x \<le> 1 / 2 ^ 1075 then 0
      else if 1 - 1 / 2 ^ 54 \<le> exp x \<and> exp x \<le> 1 + 1 / 2 ^ 53 then 1
      else exp x)"

text \<open>
  The expression \<^verbatim>\<open>A * np.exp(-E / (R * T))\<close>, which every rate constant of the
  source is an instance of.  Python raises \<^verbatim>\<open>ZeroDivisionError\<close> when \<open>R * T\<close> is
  zero; the step functions below test that before they use this expression.
\<close>

definition arrhenius :: "real \<Rightarrow> real \<Rightarrow> real \<Rightarrow> real" where
  "arrhenius A E T = A * np_exp (- E / (R * T))"

subsection \<open>\<^verbatim>\<open>blasi_1993.py\<close>\<close>

text \<open>Lines 49 to 61: the table of pre-factors and activation energies, and the five
  rate constants at temperature \<open>T\<close>.\<close>

definition blasi_K1 :: "real \<Rightarrow> real" where
  "blasi_K1 T = arrhenius 14345 (886 / 10) T"

definition blasi_K2 :: "real \<Rightarrow> real" where
  "blasi_K2 T = arrhenius 4125000 (1127 / 10) T"

definition blasi_K3 :: "real \<Rightarrow> real" where
  "blasi_K3 T = arrhenius 737660 (1065 / 10) T"

definition blasi_K4 :: "real \<Rightarrow> real" where
  "blasi_K4 T = arrhenius 4280000 108 T"

definition blasi_K5 :: "real \<Rightarrow> real" where
  "blasi_K5 T = arrhenius 1000000 108 T"

text \<open>
  Lines 63 to 85, the body of \<^verbatim>\<open>blasi\<close> after the rate constants are known.  With
  \<open>s\<close> neither 1 nor 2 no branch assigns \<^verbatim>\<open>nwood\<close>, and the \<^verbatim>\<open>return\<close>
  raises \<^verbatim>\<open>UnboundLocalError\<close>.
\<close>

definition blasi_update ::
  "real \<Rightarrow> real \<Rightarrow> real \<Rightarrow> real \<Rightarrow> real \<Rightarrow>
   real \<Rightarrow> real \<Rightarrow> real \<Rightarrow> real \<Rightarrow> real \<Rightarrow> int \<Rightarrow>
   py_error + (real \<times> real \<times> real \<times> real)" where
  "blasi_update K1 K2 K3 K4 K5 wood gas tar char dt s =
     (if s = 1 then
        (let rw = - (K1 + K2 + K3) * wood;
             rg = K1 * wood;
             rt = K2 * wood;
             rc = K3 * wood;
             nwood = wood + rw * dt;
             ngas = gas + rg * dt;
             ntar = tar + rt * dt;
             nchar = char + rc * dt
         in Inr (nwood, ngas, ntar, nchar))
      else if s = 2 then
        (let rw = - (K1 + K2 + K3) * wood;
             rg = K1 * wood + K4 * tar;
             rt = K2 * wood - (K4 + K5) * tar;
             rc = K3 * wood + K5 * tar;
             nwood = wood + rw * dt;
             ngas = gas + rg * dt;
             ntar = tar + rt * dt;
             nchar = char + rc * dt
         in Inr (nwood, ngas, ntar, nchar))
      else Inl UnboundLocalError)"

text \<open>The function \<^verbatim>\<open>blasi(wood, gas, tar, char, T, dt, s=1)\<close>.\<close>

definition blasi ::
  "real \<Rightarrow> real \<Rightarrow> real \<Rightarrow> real \<Rightarrow> real \<Rightarrow> real \<Rightarrow> int \<Rightarrow>
   py_error + (real \<times> real \<times> real \<times> real)" where
  "blasi wood gas tar char T dt s =
     (if R * T = 0 then Inl ZeroDivisionError
      else blasi_update (blasi_K1 T) (blasi_K2 T) (blasi_K3 T) (blasi_K4 T) (blasi_K5 T)
             wood gas tar char dt s)"

subsection \<open>\<^verbatim>\<open>kn_liden_1988.py\<close>\<close>

text \<open>Lines 47 to 53: the overall wood conversion \<open>K\<close> and the tar cracking \<open>K2\<close>.
  The same two constants, with the same table, are lines 52 to 60 of
  \<^verbatim>\<open>liden_1988.py\<close>.\<close>

definition liden_K :: "real \<Rightarrow> real" where
  "liden_K T = arrhenius 10000000000000 (1833 / 10) T"

definition liden_K2 :: "real \<Rightarrow> real" where
  "liden_K2 T = arrhenius 4280000 (1075 / 10) T"

text \<open>Lines 55 to 69, the body of \<^verbatim>\<open>liden\<close> of \<^verbatim>\<open>kn_liden_1988.py\<close>: both
  branches compute the same two rates, and the tar rate is \<^verbatim>\<open>-K2*wood\<close>.\<close>

definition kn_liden_update ::
  "real \<Rightarrow> real \<Rightarrow> real \<Rightarrow> real \<Rightarrow> real \<Rightarrow> int \<Rightarrow> py_error + (real \<times> real)" where
  "kn_liden_update K K2 wood tar dt s =
     (if s = 1 then
        (let rw = - K * wood;
             rt = - K2 * wood;
             nwood = wood + rw * dt;
             ntar = tar + rt * dt
         in Inr (nwood, ntar))
      else if s = 2 then
        (let rw = - K * wood;
             rt = - K2 * wood;
             nwood = wood + rw * dt;
             ntar = tar + rt * dt
         in Inr (nwood, ntar))
      else Inl UnboundLocalError)"

text \<open>The function \<^verbatim>\<open>liden(wood, tar, T, dt, s=1)\<close> of \<^verbatim>\<open>kn_liden_1988.py\<close>.\<close>

definition kn_liden ::
  "real \<Rightarrow> real \<Rightarrow> real \<Rightarrow> real \<Rightarrow> int \<Rightarrow> py_error + (real \<times> real)" where
  "kn_liden wood tar T dt s =
     (if R * T = 0 then Inl ZeroDivisionError
      else kn_liden_update (liden_K T) (liden_K2 T) wood tar dt s)"

subsection \<open>\<^verbatim>\<open>liden_1988.py\<close>\<close>

text \<open>\<^verbatim>\<open>phistar = 0.703\<close>, the maximum theoretical tar yield, and the two rate
  constants derived from it: \<^verbatim>\<open>K1 = K * phistar\<close> and \<^verbatim>\<open>K3 = K - K1\<close>
  (lines 55 to 61, and again lines 117 to 123).\<close>

definition phistar :: real where
  "phistar = 703 / 1000"

definition liden_K1 :: "real \<Rightarrow> real" where
  "liden_K1 T = liden_K T * phistar"

definition liden_K3 :: "real \<Rightarrow> real" where
  "liden_K3 T = liden_K T - liden_K1 T"

text \<open>Lines 63 to 84, the body of \<^verbatim>\<open>liden\<close>.  The primary branch sets
  \<^verbatim>\<open>ngas1 = 0\<close> whatever \<^verbatim>\<open>gas1\<close> was.\<close>

definition liden_update ::
  "real \<Rightarrow> real \<Rightarrow> real \<Rightarrow> real \<Rightarrow>
   real \<Rightarrow> real \<Rightarrow> real \<Rightarrow> real \<Rightarrow> real \<Rightarrow> int \<Rightarrow>
   py_error + (real \<times> real \<times> real \<times> real)" where
  "liden_update K K1 K2 K3 wood gas1 tar gaschar dt s =
     (if s = 1 then
        (let rw = - K * wood;
             rt = K1 * wood;
             rgc = K3 * wood;
             nwood = wood + rw * dt;
             ngas1 = 0;
             ntar = tar + rt * dt;
             ngaschar = gaschar + rgc * dt
         in Inr (nwood, ngas1, ntar, ngaschar))
      else if s = 2 then
        (let rw = - K * wood;
             rg = K2 * tar;
             rt = K1 * wood - K2 * tar;
             rgc = K3 * wood;
             nwood = wood + rw * dt;
             ngas1 = gas1 + rg * dt;
             ntar = tar + rt * dt;
             ngaschar = gaschar + rgc * dt
         in Inr (nwood, ngas1, ntar, ngaschar))
      else Inl UnboundLocalError)"

text \<open>The function \<^verbatim>\<open>liden(wood, gas1, tar, gaschar, T, dt, s=1)\<close>.\<close>

definition liden ::
  "real \<Rightarrow> real \<Rightarrow> real \<Rightarrow> real \<Rightarrow> real \<Rightarrow> real \<Rightarrow> int \<Rightarrow>
   py_error + (real \<times> real \<times> real \<times> real)" where
  "liden wood gas1 tar gaschar T dt s =
     (if R * T = 0 then Inl ZeroDivisionError
      else liden_update (liden_K T) (liden_K1 T) (liden_K2 T) (liden_K3 T)
             wood gas1 tar gaschar dt s)"

text \<open>Lines 126 to 128: \<^verbatim>\<open>FC = 0.14\<close>, \<^verbatim>\<open>c3 = FC/(1-phistar)\<close>,
  \<^verbatim>\<open>g3 = 1-c3\<close>.\<close>

definition FC :: real where
  "FC = 14 / 100"

definition c3 :: real where
  "c3 = FC / (1 - phistar)"

definition g3 :: real where
  "g3 = 1 - c3"

text \<open>Lines 130 to 142, the body of \<^verbatim>\<open>liden2\<close>.  The arguments \<^verbatim>\<open>gas\<close> and
  \<^verbatim>\<open>char\<close> are never read: the new total gas and char are computed from the new
  \<^verbatim>\<open>gas1\<close> and \<^verbatim>\<open>gaschar\<close>.\<close>

definition liden2_update ::
  "real \<Rightarrow> real \<Rightarrow> real \<Rightarrow> real \<Rightarrow>
   real \<Rightarrow> real \<Rightarrow> real \<Rightarrow> real \<Rightarrow> real \<Rightarrow> real \<Rightarrow> real \<Rightarrow>
   real \<times> real \<times> real \<times> real \<times> real \<times> real" where
  "liden2_update K K1 K2 K3 wood gas1 tar gaschar gas char dt =
     (let rw = - K * wood;
          rg = K2 * tar;
          rt = K1 * wood - K2 * tar;
          rgc = K3 * wood;
          nwood = wood + rw * dt;
          ngas1 = gas1 + rg * dt;
          ntar = tar + rt * dt;
          ngaschar = gaschar + rgc * dt;
          ngas = ngas1 + g3 * ngaschar;
          nchar = c3 * ngaschar
      in (nwood, ngas1, ntar, ngaschar, ngas, nchar))"

text \<open>The function \<^verbatim>\<open>liden2(wood, gas1, tar, gaschar, gas, char, T, dt)\<close>.\<close>

definition liden2 ::
  "real \<Rightarrow> real \<Rightarrow> real \<Rightarrow> real \<Rightarrow> real \<Rightarrow> real \<Rightarrow> real \<Rightarrow> real \<Rightarrow>
   py_error + (real \<times> real \<times> real \<times> real \<times> real \<times> real)" where
  "liden2 wood gas1 tar gaschar gas char T dt =
     (if R * T = 0 then Inl ZeroDivisionError
      else Inr (liden2_update (liden_K T) (liden_K1 T) (liden_K2 T) (liden_K3 T)
                  wood gas1 tar gaschar gas char dt))"


subsection \<open>The time vector and the driver loops\<close>

text \<open>
  Every script starts with
  \<^verbatim>\<open>dt = 0.01; tmax = 25; t = np.linspace(0, tmax, num=tmax/dt); nt = len(t)\<close>.

  \<^verbatim>\<open>np.linspace\<close> is numpy's, not this repository's.  It is written out here as
  numpy defines it with its default \<^verbatim>\<open>endpoint=True\<close>: \<open>num\<close> samples over the
  closed interval from \<open>start\<close> to \<open>stop\<close>, the sample of index \<open>i\<close> being
  \<open>i * step + start\<close> with \<open>step = (stop - start) / (num - 1)\<close>, and the last sample set
  to \<open>stop\<close>; a negative \<open>num\<close> raises \<^verbatim>\<open>ValueError\<close>.  The numpy of the scripts'
  time converts a float \<open>num\<close> with \<^verbatim>\<open>int\<close>, which truncates towards zero.
\<close>

definition py_int :: "real \<Rightarrow> int" where
  "py_int x = (if 0 \<le> x then \<lfloor>x\<rfloor> else \<lceil>x\<rceil>)"

definition linspace :: "real \<Rightarrow> real \<Rightarrow> int \<Rightarrow> py_error + real list" where
  "linspace start stop num =
     (if num < 0 then Inl ValueError
      else
        (let n = nat num;
             dv = n - 1;
             delta = stop - start;
             y = (if 0 < dv then map (\<lambda>i. real i * (delta / real dv) + start) [0..<n]
                  else map (\<lambda>i. real i * delta + start) [0..<n])
         in Inr (if 1 < n then y[n - 1 := stop] else y)))"

text \<open>The module-level \<^verbatim>\<open>t\<close> as a function of \<^verbatim>\<open>tmax\<close> and \<^verbatim>\<open>dt\<close>;
  the division \<^verbatim>\<open>tmax/dt\<close> raises when \<^verbatim>\<open>dt\<close> is zero.\<close>

definition time_vector :: "real \<Rightarrow> real \<Rightarrow> py_error + real list" where
  "time_vector tmax dt =
     (if dt = 0 then Inl ZeroDivisionError else linspace 0 tmax (py_int (tmax / dt)))"

text \<open>
  The driver loops, \<^verbatim>\<open>for i in range(1, nt): x[i] = step(x[i-1])\<close> over arrays of
  length \<^verbatim>\<open>nt\<close> whose entry 0 is the initial condition.  \<open>euler_series step n x\<close> is
  the list of the \<open>n + 1\<close> states from \<open>x\<close> on; an exception of a step ends the script.
\<close>

fun euler_series :: "('a \<Rightarrow> py_error + 'a) \<Rightarrow> nat \<Rightarrow> 'a \<Rightarrow> py_error + 'a list" where
  "euler_series step 0 x = Inr [x]"
| "euler_series step (Suc n) x =
     (case step x of
        Inl e \<Rightarrow> Inl e
      | Inr y \<Rightarrow> (case euler_series step n y of
                    Inl e \<Rightarrow> Inl e
                  | Inr ys \<Rightarrow> Inr (x # ys)))"

definition series_from :: "('a \<Rightarrow> py_error + 'a) \<Rightarrow> nat \<Rightarrow> 'a \<Rightarrow> py_error + 'a list" where
  "series_from step nt x = (if nt = 0 then Inr [] else euler_series step (nt - 1) x)"

text \<open>\<^verbatim>\<open>blasi_1993.py\<close>, lines 92 to 109: \<^verbatim>\<open>wood = np.ones(nt)\<close>, the other
  three arrays \<^verbatim>\<open>np.zeros(nt)\<close>; one loop with the default \<open>s = 1\<close> and one with
  \<open>s = 2\<close>.\<close>

definition blasi_series ::
  "nat \<Rightarrow> real \<Rightarrow> real \<Rightarrow> int \<Rightarrow> py_error + (real \<times> real \<times> real \<times> real) list" where
  "blasi_series nt T dt s =
     series_from (\<lambda>(wood, gas, tar, char). blasi wood gas tar char T dt s) nt (1, 0, 0, 0)"

text \<open>\<^verbatim>\<open>kn_liden_1988.py\<close>, lines 76 to 81.\<close>

definition kn_liden_series ::
  "nat \<Rightarrow> real \<Rightarrow> real \<Rightarrow> int \<Rightarrow> py_error + (real \<times> real) list" where
  "kn_liden_series nt T dt s =
     series_from (\<lambda>(wood, tar). kn_liden wood tar T dt s) nt (1, 0)"

text \<open>\<^verbatim>\<open>liden_1988.py\<close>, lines 151 to 162: row 0 is \<^verbatim>\<open>liden\<close> with \<open>s = 1\<close>,
  row 1 is \<^verbatim>\<open>liden\<close> with \<open>s = 2\<close>, row 2 with the arrays \<^verbatim>\<open>gas\<close> and
  \<^verbatim>\<open>char\<close> is \<^verbatim>\<open>liden2\<close>.  The three rows share one loop and no data.\<close>

definition liden_series ::
  "nat \<Rightarrow> real \<Rightarrow> real \<Rightarrow> int \<Rightarrow> py_error + (real \<times> real \<times> real \<times> real) list" where
  "liden_series nt T dt s =
     series_from (\<lambda>(wood, gas1, tar, gaschar). liden wood gas1 tar gaschar T dt s)
       nt (1, 0, 0, 0)"

definition liden2_series ::
  "nat \<Rightarrow> real \<Rightarrow> real \<Rightarrow>
   py_error + (real \<times> real \<times> real \<times> real \<times> real \<times> real) list" where
  "liden2_series nt T dt =
     series_from (\<lambda>(wood, gas1, tar, gaschar, gas, char).
                    liden2 wood gas1 tar gaschar gas char T dt)
       nt (1, 0, 0, 0, 0, 0)"

text \<open>The mass balance printed by \<^verbatim>\<open>liden_1988.py\<close>, lines 168 and 169:
  \<^verbatim>\<open>wood + gas1 + tar + gaschar\<close>.\<close>

definition mass4 :: "real \<times> real \<times> real \<times> real \<Rightarrow> real" where
  "mass4 = (\<lambda>(wood, gas1, tar, gaschar). wood + gas1 + tar + gaschar)"


section \<open>Properties\<close>

lemma R_pos: "0 < R"
  by (simp add: R_def)

lemma R_neq_0 [simp]: "R \<noteq> 0"
  by (simp add: R_def)

subsection \<open>The range of the exponential\<close>

text \<open>Bounds on \<open>exp 1\<close> give bounds on \<open>exp n\<close>, and with them the arguments where
  the double exponential underflows, where it rounds to 1, and where it does neither.\<close>

lemma np_exp_nonneg: "0 \<le> np_exp x"
  by (simp add: np_exp_def)

lemma np_exp_le_one: "x \<le> 0 \<Longrightarrow> np_exp x \<le> 1"
  by (simp add: np_exp_def)

lemma exp_one_ge: "5 / 2 \<le> exp (1::real)"
proof -
  have "1 + 1 / 8 \<le> exp (1 / 8 :: real)"
    by (rule exp_ge_add_one_self)
  then have "(1 + 1 / 8) ^ 8 \<le> exp (1 / 8 :: real) ^ 8"
    by (rule power_mono) simp
  also have "exp (1 / 8 :: real) ^ 8 = exp 1"
    using exp_of_nat_mult [of 8 "1 / 8 :: real"] by simp
  finally show ?thesis
    by (simp add: power_divide)
qed

lemma exp_nat_bounds: "(5 / 2) ^ n \<le> exp (real n) \<and> exp (real n) \<le> 3 ^ n"
proof -
  have e: "exp (real n) = exp 1 ^ n"
    using exp_of_nat_mult [of n "1::real"] by simp
  have "(5 / 2) ^ n \<le> exp (1::real) ^ n"
    by (rule power_mono [OF exp_one_ge]) simp
  moreover have "exp (1::real) ^ n \<le> 3 ^ n"
    by (rule power_mono [OF exp_le]) simp
  ultimately show ?thesis
    by (simp add: e)
qed

text \<open>No underflow down to \<open>- 600\<close>: \<open>exp 600 \<le> 3 ^ 600 \<le> 2 ^ 960 < 2 ^ 1075\<close>.\<close>

lemma exp_above_underflow:
  fixes x :: real
  assumes "- 600 \<le> x"
  shows "1 / 2 ^ 1075 < exp x"
proof -
  have "(3::real) ^ 600 = (3 ^ 5) ^ 120"
    by (simp only: power_mult [symmetric]) simp
  also have "\<dots> \<le> (2 ^ 8) ^ 120"
    by (rule power_mono) simp_all
  also have "\<dots> = 2 ^ 960"
    by (simp only: power_mult [symmetric]) simp
  also have "\<dots> < 2 ^ 1075"
    by (rule power_strict_increasing) simp_all
  finally have "(3::real) ^ 600 < 2 ^ 1075" .
  moreover have "exp (real 600) \<le> 3 ^ 600"
    using exp_nat_bounds [of 600] by simp
  ultimately have "exp (600::real) < 2 ^ 1075"
    by simp
  then have "1 / 2 ^ 1075 < 1 / exp (600::real)"
    by (intro divide_strict_left_mono) simp_all
  also have "\<dots> = exp (- 600)"
    by (simp add: exp_minus inverse_eq_divide)
  also have "\<dots> \<le> exp x"
    using assms by simp
  finally show ?thesis .
qed

text \<open>Underflow from \<open>- 1064\<close> down: \<open>exp 1064 \<ge> (5/2) ^ 1064 \<ge> 2 ^ 1330 > 2 ^ 1075\<close>.\<close>

lemma exp_below_underflow:
  fixes x :: real
  assumes "x \<le> - 1064"
  shows "exp x \<le> 1 / 2 ^ 1075"
proof -
  have "(2::real) ^ 1075 \<le> 2 ^ 1330"
    by (rule power_increasing) simp_all
  also have "\<dots> = (2 ^ 5) ^ 266"
    by (simp only: power_mult [symmetric]) simp
  also have "\<dots> \<le> ((5 / 2) ^ 4) ^ 266"
    by (rule power_mono) (simp_all add: power_divide)
  also have "\<dots> = (5 / 2) ^ 1064"
    by (simp only: power_mult [symmetric]) simp
  also have "\<dots> \<le> exp (real 1064)"
    using exp_nat_bounds [of 1064] by simp
  finally have "(2::real) ^ 1075 \<le> exp 1064"
    by simp
  have "exp x \<le> exp (- 1064)"
    using assms by simp
  also have "\<dots> = 1 / exp (1064::real)"
    by (simp add: exp_minus inverse_eq_divide)
  also have "\<dots> \<le> 1 / 2 ^ 1075"
    using \<open>(2::real) ^ 1075 \<le> exp 1064\<close> by (intro divide_left_mono) simp_all
  finally show ?thesis .
qed

text \<open>Away from 1 once the argument is at most \<open>- 2\<^sup>-\<^sup>5\<^sup>3\<close>.\<close>

lemma exp_below_one:
  fixes x :: real
  assumes "x \<le> - (1 / 2 ^ 53)"
  shows "exp x < 1 - 1 / 2 ^ 54"
proof -
  have "1 + 1 / 2 ^ 53 \<le> exp (1 / 2 ^ 53 :: real)"
    by (rule exp_ge_add_one_self)
  have "exp x \<le> exp (- (1 / 2 ^ 53))"
    using assms by simp
  also have "\<dots> = 1 / exp (1 / 2 ^ 53 :: real)"
    by (simp add: exp_minus inverse_eq_divide)
  also have "\<dots> \<le> 1 / (1 + 1 / 2 ^ 53)"
    using \<open>1 + 1 / 2 ^ 53 \<le> exp (1 / 2 ^ 53 :: real)\<close>
    by (intro divide_left_mono) (simp_all add: add_pos_pos)
  also have "\<dots> < 1 - 1 / 2 ^ 54"
    by (simp add: field_simps)
  finally show ?thesis .
qed

lemma np_exp_in_range:
  fixes x :: real
  assumes "- 600 \<le> x" and "x \<le> - (1 / 2 ^ 53)"
  shows "np_exp x = exp x"
  using exp_above_underflow [OF assms(1)] exp_below_one [OF assms(2)]
  by (simp add: np_exp_def)

lemma np_exp_underflow:
  fixes x :: real
  assumes "x \<le> - 1064"
  shows "np_exp x = 0"
  using exp_below_underflow [OF assms] by (simp add: np_exp_def)

lemma np_exp_le_exp:
  fixes x :: real
  assumes "x \<le> - (1 / 2 ^ 53)"
  shows "np_exp x \<le> exp x"
  using exp_below_one [OF assms] by (simp add: np_exp_def)

lemma np_exp_rounds_to_one:
  fixes x :: real
  assumes "- (1 / 2 ^ 54) \<le> x" and "x \<le> 0"
  shows "np_exp x = 1"
proof -
  have "1 - 1 / 2 ^ 54 \<le> 1 + x"
    using assms(1) by simp
  also have "\<dots> \<le> exp x"
    by (rule exp_ge_add_one_self)
  finally have lo: "1 - 1 / 2 ^ 54 \<le> exp x" .
  have hi: "exp x \<le> 1"
    using assms(2) by simp
  have "(1::real) / 2 ^ 1075 < 1 - 1 / 2 ^ 54"
  proof -
    have "(1::real) / 2 ^ 1075 \<le> 1 / 2 ^ 1"
      by (intro divide_left_mono power_increasing) simp_all
    also have "\<dots> < 1 - 1 / 2 ^ 54"
      by simp
    finally show ?thesis .
  qed
  with lo have "\<not> exp x \<le> 1 / 2 ^ 1075"
    by simp
  moreover have "exp x \<le> 1 + 1 / 2 ^ 53"
  proof -
    have "(1::real) \<le> 1 + 1 / 2 ^ 53"
      by simp
    with hi show ?thesis
      by (rule order_trans)
  qed
  ultimately show ?thesis
    using lo by (simp add: np_exp_def)
qed

subsection \<open>Facts about the rate constants\<close>

lemma arrhenius_nonneg: "0 \<le> A \<Longrightarrow> 0 \<le> arrhenius A E T"
  by (simp add: arrhenius_def np_exp_nonneg)

lemma liden_K_nonneg: "0 \<le> liden_K T"
  by (simp add: liden_K_def arrhenius_nonneg)

lemma c3_plus_g3: "c3 + g3 = 1"
  by (simp add: g3_def)

subsection \<open>Facts about the driver loops\<close>

lemma euler_series_invariant:
  assumes "P x" and "\<And>x. P x \<Longrightarrow> \<exists>y. step x = Inr y \<and> P y"
  shows "\<exists>xs. euler_series step n x = Inr xs \<and> length xs = Suc n \<and> (\<forall>z\<in>set xs. P z)"
  using assms(1)
proof (induction n arbitrary: x)
  case 0
  then show ?case by simp
next
  case (Suc n)
  from assms(2) [OF Suc.prems] obtain y where y: "step x = Inr y" "P y"
    by blast
  from Suc.IH [OF y(2)] obtain ys where
    ys: "euler_series step n y = Inr ys" "length ys = Suc n" "\<forall>z\<in>set ys. P z"
    by blast
  show ?case
    using y ys Suc.prems by simp
qed

lemma series_from_invariant:
  assumes "P x" and "\<And>x. P x \<Longrightarrow> \<exists>y. step x = Inr y \<and> P y"
  shows "\<exists>xs. series_from step n x = Inr xs \<and> length xs = n \<and> (\<forall>z\<in>set xs. P z)"
proof (cases n)
  case 0
  then show ?thesis by (simp add: series_from_def)
next
  case (Suc m)
  then show ?thesis
    using euler_series_invariant [of P x step m, OF assms] by (simp add: series_from_def)
qed

lemma euler_series_fixpoint:
  assumes "step x = Inr x"
  shows "euler_series step n x = Inr (replicate (Suc n) x)"
  using assms by (induction n) simp_all

lemma series_from_fixpoint:
  assumes "step x = Inr x"
  shows "series_from step n x = Inr (replicate n x)"
proof (cases n)
  case 0
  then show ?thesis by (simp add: series_from_def)
next
  case (Suc m)
  then show ?thesis
    using assms euler_series_fixpoint [of step x m] by (simp add: series_from_def)
qed

subsection \<open>Mass balance of one step and of a run\<close>

lemma blasi_returns:
  assumes "T \<noteq> 0" and "s = 1 \<or> s = 2"
  shows "\<exists>r. blasi wood gas tar char T dt s = Inr r"
  using assms by (auto simp add: blasi_def blasi_update_def Let_def)

lemma blasi_update_mass:
  assumes "blasi_update K1 K2 K3 K4 K5 wood gas tar char dt s = Inr r"
  shows "mass4 r = mass4 (wood, gas, tar, char)"
  using assms
  by (auto simp add: blasi_update_def Let_def mass4_def algebra_simps split: if_splits)

lemma blasi_mass:
  assumes "T \<noteq> 0" and "s = 1 \<or> s = 2"
  shows "\<exists>r. blasi wood gas tar char T dt s = Inr r \<and> mass4 r = mass4 (wood, gas, tar, char)"
proof -
  obtain r where r: "blasi wood gas tar char T dt s = Inr r"
    using blasi_returns [OF assms] by blast
  then have "mass4 r = mass4 (wood, gas, tar, char)"
    using assms(1) blasi_update_mass by (simp add: blasi_def)
  with r show ?thesis
    by blast
qed

lemma liden_returns:
  assumes "T \<noteq> 0" and "s = 1 \<or> s = 2"
  shows "\<exists>r. liden wood gas1 tar gaschar T dt s = Inr r"
  using assms by (auto simp add: liden_def liden_update_def Let_def)

lemma liden_update_mass_2:
  assumes "liden_update K (K * p) K2 (K - K * p) wood gas1 tar gaschar dt 2 = Inr r"
  shows "mass4 r = mass4 (wood, gas1, tar, gaschar)"
  using assms
  by (auto simp add: liden_update_def Let_def mass4_def algebra_simps)

lemma liden_update_mass_1:
  assumes "liden_update K (K * p) K2 (K - K * p) wood gas1 tar gaschar dt 1 = Inr r"
  shows "fst (snd r) = 0 \<and> mass4 r = mass4 (wood, 0, tar, gaschar)"
  using assms
  by (auto simp add: liden_update_def Let_def mass4_def algebra_simps)

lemma liden_mass_2:
  assumes "T \<noteq> 0"
  shows "\<exists>r. liden wood gas1 tar gaschar T dt 2 = Inr r \<and>
             mass4 r = mass4 (wood, gas1, tar, gaschar)"
proof -
  obtain r where r: "liden wood gas1 tar gaschar T dt 2 = Inr r"
    using liden_returns [of T 2 wood gas1 tar gaschar dt] assms by auto
  then have "mass4 r = mass4 (wood, gas1, tar, gaschar)"
    using assms liden_update_mass_2 by (simp add: liden_def liden_K1_def liden_K3_def)
  with r show ?thesis
    by blast
qed

lemma liden_mass_1:
  assumes "T \<noteq> 0"
  shows "\<exists>r. liden wood gas1 tar gaschar T dt 1 = Inr r \<and> fst (snd r) = 0 \<and>
             mass4 r = mass4 (wood, 0, tar, gaschar)"
proof -
  obtain r where r: "liden wood gas1 tar gaschar T dt 1 = Inr r"
    using liden_returns [of T 1 wood gas1 tar gaschar dt] assms by auto
  then have "fst (snd r) = 0 \<and> mass4 r = mass4 (wood, 0, tar, gaschar)"
    using assms liden_update_mass_1 by (simp add: liden_def liden_K1_def liden_K3_def)
  with r show ?thesis
    by blast
qed

lemma blasi_series_mass:
  assumes "T \<noteq> 0" and "s = 1 \<or> s = 2"
  shows "\<exists>xs. blasi_series n T dt s = Inr xs \<and> length xs = n \<and> (\<forall>x\<in>set xs. mass4 x = 1)"
  unfolding blasi_series_def
proof (rule series_from_invariant)
  show "mass4 (1, 0, 0, 0) = 1"
    by (simp add: mass4_def)
next
  fix x :: "real \<times> real \<times> real \<times> real"
  assume x: "mass4 x = 1"
  obtain wood gas tar char where [simp]: "x = (wood, gas, tar, char)"
    by (cases x)
  show "\<exists>y. (case x of (wood, gas, tar, char) \<Rightarrow> blasi wood gas tar char T dt s) = Inr y \<and>
            mass4 y = 1"
    using blasi_mass [OF assms, of wood gas tar char dt] x by simp
qed

lemma liden_series_mass:
  assumes "T \<noteq> 0" and "s = 1 \<or> s = 2"
  shows "\<exists>xs. liden_series n T dt s = Inr xs \<and> length xs = n \<and> (\<forall>x\<in>set xs. mass4 x = 1)"
proof -
  let ?P = "\<lambda>x. mass4 x = 1 \<and> (s = 1 \<longrightarrow> fst (snd x) = 0)"
  have "\<exists>xs. liden_series n T dt s = Inr xs \<and> length xs = n \<and> (\<forall>x\<in>set xs. ?P x)"
    unfolding liden_series_def
  proof (rule series_from_invariant)
    show "?P (1, 0, 0, 0)"
      by (simp add: mass4_def)
  next
    fix x :: "real \<times> real \<times> real \<times> real"
    assume x: "?P x"
    obtain wood gas1 tar gaschar where [simp]: "x = (wood, gas1, tar, gaschar)"
      by (cases x)
    show "\<exists>y. (case x of (wood, gas1, tar, gaschar) \<Rightarrow> liden wood gas1 tar gaschar T dt s) = Inr y \<and>
              ?P y"
    proof (cases "s = 1")
      case True
      then show ?thesis
        using liden_mass_1 [OF assms(1), of wood gas1 tar gaschar dt] x
        by (auto simp add: mass4_def)
    next
      case False
      then have "s = 2"
        using assms(2) by simp
      then show ?thesis
        using liden_mass_2 [OF assms(1), of wood gas1 tar gaschar dt] x by auto
    qed
  qed
  then show ?thesis
    by blast
qed

subsection \<open>Numeric bounds on the rate constants at 773 K\<close>

lemma arrhenius_upper:
  assumes "0 \<le> A" and "1 \<le> n" and "real n \<le> E / (R * T)"
  shows "arrhenius A E T \<le> A / (5 / 2) ^ n"
proof -
  have "- E / (R * T) \<le> - real n"
    using assms(3) by simp
  also have "\<dots> \<le> - 1"
    using assms(2) by simp
  also have "\<dots> \<le> - (1 / 2 ^ 53)"
    by simp
  finally have "np_exp (- E / (R * T)) \<le> exp (- E / (R * T))"
    by (rule np_exp_le_exp)
  also have "\<dots> \<le> exp (- real n)"
    using assms(3) by simp
  also have "\<dots> = inverse (exp (real n))"
    by (rule exp_minus)
  also have "\<dots> \<le> inverse ((5 / 2) ^ n)"
    using exp_nat_bounds [of n] by (intro le_imp_inverse_le) simp_all
  finally have "A * np_exp (- E / (R * T)) \<le> A * inverse ((5 / 2) ^ n)"
    using assms(1) by (rule mult_left_mono)
  then show ?thesis
    by (simp add: arrhenius_def inverse_eq_divide)
qed

lemma arrhenius_lower:
  assumes "0 \<le> A" and "n \<le> 600" and "1 \<le> E / (R * T)" and "E / (R * T) \<le> real n"
  shows "A / 3 ^ n \<le> arrhenius A E T"
proof -
  have lo: "- 600 \<le> - E / (R * T)"
    using assms(2,4) by simp
  have "- E / (R * T) \<le> - 1"
    using assms(3) by simp
  also have "\<dots> \<le> - (1 / 2 ^ 53)"
    by simp
  finally have eq: "np_exp (- E / (R * T)) = exp (- E / (R * T))"
    by (rule np_exp_in_range [OF lo])
  have "inverse (3 ^ n) \<le> inverse (exp (real n))"
    using exp_nat_bounds [of n] by (intro le_imp_inverse_le) simp_all
  also have "\<dots> = exp (- real n)"
    by (rule exp_minus [symmetric])
  also have "\<dots> \<le> exp (- E / (R * T))"
    using assms(4) by simp
  finally have "A * inverse (3 ^ n) \<le> A * np_exp (- E / (R * T))"
    unfolding eq using assms(1) by (rule mult_left_mono)
  then show ?thesis
    by (simp add: arrhenius_def inverse_eq_divide)
qed

lemma liden_K_773_le: "liden_K 773 \<le> 100"
proof -
  have "liden_K 773 \<le> 10000000000000 / (5 / 2) ^ 28"
    unfolding liden_K_def by (rule arrhenius_upper) (simp_all add: R_def)
  also have "\<dots> \<le> 100"
    by (simp add: power_divide)
  finally show ?thesis .
qed

lemma liden_K_773_gt: "1 / 10 < liden_K 773"
proof -
  have "(1::real) / 10 < 10000000000000 / 3 ^ 29"
    by simp
  also have "\<dots> \<le> liden_K 773"
    unfolding liden_K_def by (rule arrhenius_lower) (simp_all add: R_def)
  finally show ?thesis .
qed

lemma blasi_K_773_le: "blasi_K1 773 + blasi_K2 773 + blasi_K3 773 \<le> 3"
proof -
  have "blasi_K1 773 \<le> 14345 / (5 / 2) ^ 13"
    unfolding blasi_K1_def by (rule arrhenius_upper) (simp_all add: R_def)
  also have "\<dots> \<le> 1"
    by (simp add: power_divide)
  finally have 1: "blasi_K1 773 \<le> 1" .
  have "blasi_K2 773 \<le> 4125000 / (5 / 2) ^ 17"
    unfolding blasi_K2_def by (rule arrhenius_upper) (simp_all add: R_def)
  also have "\<dots> \<le> 1"
    by (simp add: power_divide)
  finally have 2: "blasi_K2 773 \<le> 1" .
  have "blasi_K3 773 \<le> 737660 / (5 / 2) ^ 16"
    unfolding blasi_K3_def by (rule arrhenius_upper) (simp_all add: R_def)
  also have "\<dots> \<le> 1"
    by (simp add: power_divide)
  finally have 3: "blasi_K3 773 \<le> 1" .
  from 1 2 3 show ?thesis
    by simp
qed

subsection \<open>The wood concentration after one step and along a run\<close>

lemma euler_step_le:
  fixes w :: real
  assumes "0 \<le> k" and "0 \<le> w" and "0 \<le> dt"
  shows "w + (- k * w) * dt \<le> w"
proof -
  have "0 \<le> k * w * dt"
    using assms by simp
  then show ?thesis
    by simp
qed

lemma euler_step_nonneg:
  fixes w :: real
  assumes "k * dt \<le> 1" and "0 \<le> w"
  shows "0 \<le> w + (- k * w) * dt"
proof -
  have "0 \<le> w * (1 - k * dt)"
    using assms by simp
  then show ?thesis
    by (simp add: algebra_simps)
qed

lemma blasi_K_nonneg: "0 \<le> blasi_K1 T + blasi_K2 T + blasi_K3 T"
  by (simp add: blasi_K1_def blasi_K2_def blasi_K3_def arrhenius_nonneg)

lemma blasi_wood:
  assumes "blasi wood gas tar char T dt s = Inr r"
  shows "fst r = wood + (- (blasi_K1 T + blasi_K2 T + blasi_K3 T) * wood) * dt"
  using assms by (auto simp add: blasi_def blasi_update_def Let_def split: if_splits)

lemma kn_liden_wood:
  assumes "kn_liden wood tar T dt s = Inr r"
  shows "fst r = wood + (- liden_K T * wood) * dt"
  using assms by (auto simp add: kn_liden_def kn_liden_update_def Let_def split: if_splits)

lemma liden_wood:
  assumes "liden wood gas1 tar gaschar T dt s = Inr r"
  shows "fst r = wood + (- liden_K T * wood) * dt"
  using assms by (auto simp add: liden_def liden_update_def Let_def split: if_splits)

lemma liden2_wood:
  assumes "liden2 wood gas1 tar gaschar gas char T dt = Inr r"
  shows "fst r = wood + (- liden_K T * wood) * dt"
  using assms by (auto simp add: liden2_def liden2_update_def Let_def split: if_splits)

lemma euler_series_decreasing:
  fixes f :: "'a \<Rightarrow> real"
  assumes "P x"
    and step: "\<And>x y. P x \<Longrightarrow> step x = Inr y \<Longrightarrow> P y \<and> f y \<le> f x"
    and "euler_series step n x = Inr xs"
  shows "sorted_wrt (\<lambda>a b. f b \<le> f a) xs \<and> (\<forall>z\<in>set xs. P z \<and> f z \<le> f x)"
  using assms(1,3)
proof (induction n arbitrary: x xs)
  case 0
  then show ?case by auto
next
  case (Suc n)
  from Suc.prems(2) obtain y ys where
    y: "step x = Inr y" and ys: "euler_series step n y = Inr ys" and xs: "xs = x # ys"
    by (auto split: sum.splits)
  from step [OF Suc.prems(1) y] have Py: "P y" and le: "f y \<le> f x"
    by simp_all
  from Suc.IH [OF Py ys] have
    "sorted_wrt (\<lambda>a b. f b \<le> f a) ys" and "\<forall>z\<in>set ys. P z \<and> f z \<le> f y"
    by simp_all
  with le Suc.prems(1) show ?case
    unfolding xs by fastforce
qed

lemma series_from_decreasing:
  fixes f :: "'a \<Rightarrow> real"
  assumes "P x"
    and "\<And>x y. P x \<Longrightarrow> step x = Inr y \<Longrightarrow> P y \<and> f y \<le> f x"
    and "series_from step n x = Inr xs"
  shows "sorted_wrt (\<lambda>a b. f b \<le> f a) xs \<and> (\<forall>z\<in>set xs. P z)"
proof (cases n)
  case 0
  then show ?thesis
    using assms(3) by (auto simp add: series_from_def)
next
  case (Suc m)
  then have "euler_series step m x = Inr xs"
    using assms(3) by (simp add: series_from_def)
  from euler_series_decreasing [of P x step f m xs, OF assms(1,2) this]
  show ?thesis
    by simp
qed

lemma blasi_series_sorted:
  assumes "0 \<le> dt" and "(blasi_K1 T + blasi_K2 T + blasi_K3 T) * dt \<le> 1"
    and "blasi_series n T dt s = Inr xs"
  shows "sorted_wrt (\<lambda>a b. fst b \<le> fst a) xs \<and> (\<forall>x\<in>set xs. 0 \<le> fst x)"
proof (rule series_from_decreasing [where P = "\<lambda>x. 0 \<le> fst x"])
  show "series_from (\<lambda>(wood, gas, tar, char). blasi wood gas tar char T dt s) n (1, 0, 0, 0) = Inr xs"
    using assms(3) by (simp add: blasi_series_def)
next
  show "0 \<le> fst (1::real, 0::real, 0::real, 0::real)"
    by simp
next
  fix x y :: "real \<times> real \<times> real \<times> real"
  assume x: "0 \<le> fst x"
    and y: "(case x of (wood, gas, tar, char) \<Rightarrow> blasi wood gas tar char T dt s) = Inr y"
  obtain wood gas tar char where [simp]: "x = (wood, gas, tar, char)"
    by (cases x)
  have w: "0 \<le> wood"
    using x by simp
  have eq: "fst y = wood + (- (blasi_K1 T + blasi_K2 T + blasi_K3 T) * wood) * dt"
    using y blasi_wood by simp
  have "0 \<le> fst y"
    unfolding eq by (rule euler_step_nonneg [OF assms(2) w])
  moreover have "fst y \<le> wood"
    unfolding eq by (rule euler_step_le [OF blasi_K_nonneg w assms(1)])
  ultimately show "0 \<le> fst y \<and> fst y \<le> fst x"
    by simp
qed

lemma liden_family_series_sorted:
  fixes step :: "'a \<Rightarrow> py_error + 'a" and wd :: "'a \<Rightarrow> real"
  assumes "0 \<le> dt" and "liden_K T * dt \<le> 1" and "0 \<le> wd x0"
    and wood: "\<And>x y. step x = Inr y \<Longrightarrow> wd y = wd x + (- liden_K T * wd x) * dt"
    and "series_from step n x0 = Inr xs"
  shows "sorted_wrt (\<lambda>a b. wd b \<le> wd a) xs \<and> (\<forall>x\<in>set xs. 0 \<le> wd x)"
proof (rule series_from_decreasing [where P = "\<lambda>x. 0 \<le> wd x"])
  show "series_from step n x0 = Inr xs"
    by (rule assms(5))
next
  show "0 \<le> wd x0"
    by (rule assms(3))
next
  fix x y
  assume w: "0 \<le> wd x" and y: "step x = Inr y"
  have eq: "wd y = wd x + (- liden_K T * wd x) * dt"
    by (rule wood [OF y])
  have "0 \<le> wd y"
    unfolding eq by (rule euler_step_nonneg [OF assms(2) w])
  moreover have "wd y \<le> wd x"
    unfolding eq by (rule euler_step_le [OF liden_K_nonneg w assms(1)])
  ultimately show "0 \<le> wd y \<and> wd y \<le> wd x"
    by simp
qed

lemma kn_liden_series_sorted:
  assumes "0 \<le> dt" and "liden_K T * dt \<le> 1" and "kn_liden_series n T dt s = Inr xs"
  shows "sorted_wrt (\<lambda>a b. fst b \<le> fst a) xs \<and> (\<forall>x\<in>set xs. 0 \<le> fst x)"
proof (rule liden_family_series_sorted [OF assms(1,2)])
  show "series_from (\<lambda>(wood, tar). kn_liden wood tar T dt s) n (1, 0) = Inr xs"
    using assms(3) by (simp add: kn_liden_series_def)
next
  show "0 \<le> fst (1::real, 0::real)"
    by simp
next
  fix x y :: "real \<times> real"
  assume "(case x of (wood, tar) \<Rightarrow> kn_liden wood tar T dt s) = Inr y"
  then show "fst y = fst x + (- liden_K T * fst x) * dt"
    using kn_liden_wood by (cases x) simp
qed

lemma liden_series_sorted:
  assumes "0 \<le> dt" and "liden_K T * dt \<le> 1" and "liden_series n T dt s = Inr xs"
  shows "sorted_wrt (\<lambda>a b. fst b \<le> fst a) xs \<and> (\<forall>x\<in>set xs. 0 \<le> fst x)"
proof (rule liden_family_series_sorted [OF assms(1,2)])
  show "series_from (\<lambda>(wood, gas1, tar, gaschar). liden wood gas1 tar gaschar T dt s)
          n (1, 0, 0, 0) = Inr xs"
    using assms(3) by (simp add: liden_series_def)
next
  show "0 \<le> fst (1::real, 0::real, 0::real, 0::real)"
    by simp
next
  fix x y :: "real \<times> real \<times> real \<times> real"
  assume "(case x of (wood, gas1, tar, gaschar) \<Rightarrow> liden wood gas1 tar gaschar T dt s) = Inr y"
  then show "fst y = fst x + (- liden_K T * fst x) * dt"
    using liden_wood by (cases x) simp
qed

lemma liden2_series_sorted:
  assumes "0 \<le> dt" and "liden_K T * dt \<le> 1" and "liden2_series n T dt = Inr xs"
  shows "sorted_wrt (\<lambda>a b. fst b \<le> fst a) xs \<and> (\<forall>x\<in>set xs. 0 \<le> fst x)"
proof (rule liden_family_series_sorted [OF assms(1,2)])
  show "series_from (\<lambda>(wood, gas1, tar, gaschar, gas, char).
                      liden2 wood gas1 tar gaschar gas char T dt)
          n (1, 0, 0, 0, 0, 0) = Inr xs"
    using assms(3) by (simp add: liden2_series_def)
next
  show "0 \<le> fst (1::real, 0::real, 0::real, 0::real, 0::real, 0::real)"
    by simp
next
  fix x y :: "real \<times> real \<times> real \<times> real \<times> real \<times> real"
  assume "(case x of (wood, gas1, tar, gaschar, gas, char) \<Rightarrow>
             liden2 wood gas1 tar gaschar gas char T dt) = Inr y"
  then show "fst y = fst x + (- liden_K T * fst x) * dt"
    using liden2_wood by (cases x) simp
qed

subsection \<open>Steps with all rate constants zero\<close>

lemma blasi_update_zero:
  assumes "s = 1 \<or> s = 2"
  shows "blasi_update 0 0 0 0 0 wood gas tar char dt s = Inr (wood, gas, tar, char)"
  using assms by (auto simp add: blasi_update_def)

lemma liden_update_zero_2:
  "liden_update 0 0 0 0 wood gas1 tar gaschar dt 2 = Inr (wood, gas1, tar, gaschar)"
  by (simp add: liden_update_def)

lemma liden_update_zero_1:
  "liden_update 0 0 0 0 wood gas1 tar gaschar dt 1 = Inr (wood, 0, tar, gaschar)"
  by (simp add: liden_update_def)

lemma liden2_update_zero:
  "liden2_update 0 0 0 0 wood gas1 tar gaschar gas char dt =
     (wood, gas1, tar, gaschar, gas1 + g3 * gaschar, c3 * gaschar)"
  by (simp add: liden2_update_def)

subsection \<open>The claims\<close>

text \<open>
  C1.  For the primary and secondary scheme (\<open>s = 2\<close>) one call of \<^verbatim>\<open>blasi\<close>
  returns \<open>(wood + rw*dt, gas + rg*dt, tar + rt*dt, char + rc*dt)\<close> with
  \<open>rw = -(K1+K2+K3)*wood\<close>, \<open>rg = K1*wood + K4*tar\<close>, \<open>rt = K2*wood - (K4+K5)*tar\<close>
  and \<open>rc = K3*wood + K5*tar\<close>, every rate taken at the concentrations passed in.
  (At \<open>T = 0\<close> the call raises before any rate is computed.)
\<close>

theorem blasi_secondary_step:
  "blasi wood gas tar char T dt 2 =
     (if T = 0 then Inl ZeroDivisionError
      else Inr (wood + (- (blasi_K1 T + blasi_K2 T + blasi_K3 T) * wood) * dt,
                gas + (blasi_K1 T * wood + blasi_K4 T * tar) * dt,
                tar + (blasi_K2 T * wood - (blasi_K4 T + blasi_K5 T) * tar) * dt,
                char + (blasi_K3 T * wood + blasi_K5 T * tar) * dt))"
  by (simp add: blasi_def blasi_update_def Let_def)

text \<open>
  The claim C2 as it is stated, for every \<open>T > 0\<close>, fails at both ends of the range of
  the double exponential.  At \<open>T = 10\<close> the exponent of the first Blasi constant is about
  \<open>-1065.7\<close>, \<^verbatim>\<open>np.exp\<close> underflows to \<open>0.0\<close> and \<open>k = 0\<close>.  At \<open>T = 10\<^sup>2\<^sup>1\<close> the
  exponent is about \<open>-1.07e-17\<close>, \<^verbatim>\<open>np.exp\<close> rounds to \<open>1.0\<close> and \<open>k = A\<close>.
\<close>

theorem arrhenius_bounds_counterexample:
  "(0::real) < 14345 \<and> (0::real) < 886 / 10 \<and> (0::real) < 10 \<and> (0::real) < 10 ^ 21 \<and>
   arrhenius 14345 (886 / 10) 10 = 0 \<and>
   arrhenius 14345 (886 / 10) (10 ^ 21) = 14345"
proof -
  have "np_exp (- (886 / 10) / (R * 10)) = 0"
    by (rule np_exp_underflow) (simp add: R_def)
  moreover have "np_exp (- (886 / 10) / (R * 10 ^ 21)) = 1"
    by (rule np_exp_rounds_to_one) (simp_all add: R_def)
  ultimately show ?thesis
    by (simp add: arrhenius_def)
qed

text \<open>
  C2 (amended).  A rate constant \<open>k = A * exp(-E / (R*T))\<close> with \<open>A > 0\<close>, \<open>E > 0\<close>,
  \<open>T > 0\<close> and \<open>R = 0.008314\<close> satisfies \<open>0 \<le> k \<le> A\<close>.  It satisfies \<open>0 < k < A\<close>
  whenever \<open>A \<ge> 1\<close> (as every pre-factor of the code is; the product with a much
  smaller \<open>A\<close> can itself underflow) and the exponent is inside the range of the double
  exponential, \<open>2\<^sup>-\<^sup>5\<^sup>3 \<le> E / (R*T) \<le> 600\<close>.
\<close>

theorem arrhenius_bounds:
  assumes "0 < A" and "0 < E" and "0 < T"
  shows "0 \<le> arrhenius A E T \<and> arrhenius A E T \<le> A \<and>
         (1 \<le> A \<and> 1 / 2 ^ 53 \<le> E / (R * T) \<and> E / (R * T) \<le> 600 \<longrightarrow>
            0 < arrhenius A E T \<and> arrhenius A E T < A)"
proof (intro conjI impI)
  have neg: "- E / (R * T) \<le> 0"
    using assms R_pos by (simp add: divide_nonneg_pos)
  show "0 \<le> arrhenius A E T"
    using assms(1) by (simp add: arrhenius_def np_exp_nonneg)
  have "A * np_exp (- E / (R * T)) \<le> A * 1"
    using assms(1) np_exp_le_one [OF neg] by (intro mult_left_mono) simp_all
  then show "arrhenius A E T \<le> A"
    by (simp add: arrhenius_def)
next
  assume h: "1 \<le> A \<and> 1 / 2 ^ 53 \<le> E / (R * T) \<and> E / (R * T) \<le> 600"
  have lo: "- 600 \<le> - E / (R * T)"
    using h by simp
  have hi: "- E / (R * T) \<le> - (1 / 2 ^ 53)"
    using h by simp
  have eq: "np_exp (- E / (R * T)) = exp (- E / (R * T))"
    by (rule np_exp_in_range [OF lo hi])
  show "0 < arrhenius A E T"
    unfolding arrhenius_def eq using assms(1) by simp
  have "- E / (R * T) < 0"
  proof -
    have "- (1 / 2 ^ 53) < (0::real)"
      by simp
    with hi show ?thesis
      by (rule le_less_trans)
  qed
  then have "exp (- E / (R * T)) < 1"
    by simp
  then have "A * exp (- E / (R * T)) < A * 1"
    using assms(1) by (simp only: mult_less_cancel_left_pos)
  then show "arrhenius A E T < A"
    unfolding arrhenius_def eq by simp
qed

theorem arrhenius_bounds_witness:
  "(0::real) < 14345 \<and> (0::real) < 886 / 10 \<and> (0::real) < 773 \<and> (1::real) \<le> 14345 \<and>
   1 / 2 ^ 53 \<le> (886 / 10) / (R * 773) \<and> (886 / 10) / (R * 773) \<le> 600 \<and>
   0 < blasi_K1 773 \<and> blasi_K1 773 < 14345"
proof -
  have h: "1 / 2 ^ 53 \<le> (886 / 10) / (R * 773) \<and> (886 / 10) / (R * 773) \<le> 600"
    by (simp add: R_def)
  show ?thesis
    using h arrhenius_bounds [of 14345 "886 / 10" 773] by (simp add: blasi_K1_def)
qed

text \<open>
  The claim C4 as it is stated, for every \<open>T > 0\<close>, fails where the exponential
  underflows: at \<open>T = 10\<close> the exponent of \<open>K\<close> is about \<open>-2204.7\<close>, so \<open>K = 0.0\<close> and
  \<open>K1 = 0.0\<close>, and the ratio \<open>K1 / K\<close> is \<open>0 / 0\<close>, not \<open>0.703\<close>.  (The quotient by zero
  is an error or \<open>nan\<close> in the code and 0 in HOL; it is \<open>0.703\<close> in neither.)
\<close>

theorem liden_split_counterexample:
  "(0::real) < 10 \<and> liden_K 10 = 0 \<and> liden_K1 10 = 0 \<and>
   liden_K1 10 / liden_K 10 \<noteq> 703 / 1000"
proof -
  have "np_exp (- (1833 / 10) / (R * 10)) = 0"
    by (rule np_exp_underflow) (simp add: R_def)
  then have "liden_K 10 = 0"
    by (simp add: liden_K_def arrhenius_def)
  then show ?thesis
    by (simp add: liden_K1_def)
qed

text \<open>
  C4 (amended).  In \<^verbatim>\<open>liden_1988.py\<close> the derived constants are \<open>K1 = K * 0.703\<close> and
  \<open>K3 = K - K1\<close>, computed from the evaluated \<open>K\<close>, for every \<open>T > 0\<close>; hence
  \<open>K1 + K3 = K\<close>, and these are the constants the step uses.  The ratio \<open>K1 / K\<close> is
  \<open>0.703\<close> whenever \<open>K\<close> is not 0, and \<open>K\<close> is not 0 at least for every \<open>T \<ge> 37\<close>.
  (The identities are exact in real arithmetic; on doubles they hold up to rounding.)
\<close>

theorem liden_split:
  assumes "0 < T"
  shows "liden_K1 T = liden_K T * (703 / 1000) \<and>
         liden_K3 T = liden_K T - liden_K1 T \<and>
         liden_K1 T + liden_K3 T = liden_K T \<and>
         (liden_K T \<noteq> 0 \<longrightarrow> liden_K1 T / liden_K T = 703 / 1000) \<and>
         (37 \<le> T \<longrightarrow> liden_K T \<noteq> 0) \<and>
         liden wood gas1 tar gaschar T dt s =
           liden_update (liden_K T) (liden_K1 T) (liden_K2 T) (liden_K3 T)
             wood gas1 tar gaschar dt s"
proof (intro conjI impI)
  show "liden_K1 T = liden_K T * (703 / 1000)"
    by (simp add: liden_K1_def phistar_def)
  show "liden_K3 T = liden_K T - liden_K1 T"
    by (simp add: liden_K3_def)
  show "liden_K1 T + liden_K3 T = liden_K T"
    by (simp add: liden_K3_def)
  have "R * T \<noteq> 0"
    using assms by simp
  then show "liden wood gas1 tar gaschar T dt s =
           liden_update (liden_K T) (liden_K1 T) (liden_K2 T) (liden_K3 T)
             wood gas1 tar gaschar dt s"
    by (simp add: liden_def)
next
  assume "liden_K T \<noteq> 0"
  then show "liden_K1 T / liden_K T = 703 / 1000"
    by (simp add: liden_K1_def phistar_def)
next
  assume T: "37 \<le> T"
  have "(1833 / 10) / (R * T) \<le> (1833 / 10) / (R * 37)"
    using T R_pos by (intro divide_left_mono mult_left_mono mult_pos_pos) simp_all
  also have "\<dots> \<le> 600"
    by (simp add: R_def)
  finally have "- 600 \<le> - (1833 / 10) / (R * T)"
    by simp
  then have "1 / 2 ^ 1075 < exp (- (1833 / 10) / (R * T))"
    by (rule exp_above_underflow)
  then have "np_exp (- (1833 / 10) / (R * T)) \<noteq> 0"
    by (simp add: np_exp_def)
  then show "liden_K T \<noteq> 0"
    by (simp add: liden_K_def arrhenius_def)
qed

theorem liden_split_witness:
  "(0::real) < 773 \<and> (37::real) \<le> 773 \<and> liden_K 773 \<noteq> 0 \<and>
   liden_K1 773 + liden_K3 773 = liden_K 773 \<and>
   liden_K1 773 / liden_K 773 = 703 / 1000"
  using liden_split [of 773 1 0 0 0 "1 / 100" 1] by simp

text \<open>
  C5.  A call of \<^verbatim>\<open>liden2\<close> (at a temperature other than 0) returns; the returned
  total gas is \<open>gas1' + g3 * gaschar'\<close> and the returned char is \<open>c3 * gaschar'\<close>, where
  \<open>gas1'\<close> and \<open>gaschar'\<close> are the updated values, \<open>c3 = 0.14 / (1 - 0.703)\<close> and
  \<open>g3 = 1 - c3\<close>.  So \<open>c3 + g3 = 1\<close> and \<open>gas + char = gas1' + gaschar'\<close>, whatever the
  input state.
\<close>

theorem liden2_gas_char_split:
  assumes "T \<noteq> 0"
  shows "\<exists>nwood ngas1 ntar ngaschar ngas nchar.
           liden2 wood gas1 tar gaschar gas char T dt =
             Inr (nwood, ngas1, ntar, ngaschar, ngas, nchar) \<and>
           ngas1 = gas1 + liden_K2 T * tar * dt \<and>
           ngaschar = gaschar + liden_K3 T * wood * dt \<and>
           ngas = ngas1 + g3 * ngaschar \<and>
           nchar = c3 * ngaschar \<and>
           c3 = (14 / 100) / (1 - 703 / 1000) \<and>
           g3 = 1 - c3 \<and>
           c3 + g3 = 1 \<and>
           ngas + nchar = ngas1 + ngaschar"
proof -
  have "g3 * x + c3 * x = x" for x
    by (simp add: g3_def algebra_simps)
  then show ?thesis
    using assms
    by (simp add: liden2_def liden2_update_def Let_def c3_plus_g3 add.assoc)
       (simp add: c3_def FC_def phistar_def g3_def)
qed

theorem liden2_gas_char_split_witness:
  "(773::real) \<noteq> 0 \<and>
   (\<exists>nwood ngas1 ntar ngaschar ngas nchar.
      liden2 1 0 0 0 0 0 773 (1 / 100) = Inr (nwood, ngas1, ntar, ngaschar, ngas, nchar) \<and>
      ngaschar = 0 + liden_K3 773 * 1 * (1 / 100) \<and>
      ngas = ngas1 + g3 * ngaschar \<and>
      nchar = c3 * ngaschar \<and>
      ngas + nchar = ngas1 + ngaschar)"
proof -
  have h: "(773::real) \<noteq> 0"
    by simp
  show ?thesis
    using h liden2_gas_char_split [OF h, of 1 0 0 0 0 0 "1 / 100"] by blast
qed

text \<open>
  C8.  In \<^verbatim>\<open>kn_liden_1988.py\<close> the tar rate is \<open>-K2 * wood\<close>, driven by the wood
  concentration and not by tar: for \<open>s = 1\<close> and for \<open>s = 2\<close> one step returns
  \<open>wood' = wood - K * wood * dt\<close> and \<open>tar' = tar - K2 * wood * dt\<close>, whatever the input
  state.  (At \<open>T = 0\<close> the call raises before any rate is computed.)
\<close>

theorem kn_liden_step:
  assumes "s = 1 \<or> s = 2"
  shows "kn_liden wood tar T dt s =
           (if T = 0 then Inl ZeroDivisionError
            else Inr (wood - liden_K T * wood * dt, tar - liden_K2 T * wood * dt))"
  using assms by (auto simp add: kn_liden_def kn_liden_update_def Let_def)

theorem kn_liden_step_witness:
  "((1::int) = 1 \<or> (1::int) = 2) \<and>
   kn_liden 1 0 773 (1 / 100) 1 =
     Inr (1 - liden_K 773 * 1 * (1 / 100), 0 - liden_K2 773 * 1 * (1 / 100))"
  using kn_liden_step [of 1 1 0 773 "1 / 100"] by simp

text \<open>
  C10.  A call of \<^verbatim>\<open>blasi\<close> or of either \<^verbatim>\<open>liden\<close> with a selector \<open>s\<close> other
  than 1 and 2 returns no result: it ends in an error (\<^verbatim>\<open>UnboundLocalError\<close> at the
  \<^verbatim>\<open>return\<close>, or \<^verbatim>\<open>ZeroDivisionError\<close> before that when \<open>T = 0\<close>).  So a result
  is returned only when \<open>s\<close> is 1 or 2.
\<close>

theorem bad_selector_fails:
  assumes "s \<noteq> 1" and "s \<noteq> 2"
  shows "blasi wood gas tar char T dt s =
           Inl (if T = 0 then ZeroDivisionError else UnboundLocalError) \<and>
         kn_liden wood tar T dt s =
           Inl (if T = 0 then ZeroDivisionError else UnboundLocalError) \<and>
         liden wood gas1 tar gaschar T dt s =
           Inl (if T = 0 then ZeroDivisionError else UnboundLocalError)"
  using assms
  by (simp add: blasi_def blasi_update_def kn_liden_def kn_liden_update_def
      liden_def liden_update_def)

theorem bad_selector_fails_witness:
  "(3::int) \<noteq> 1 \<and> (3::int) \<noteq> 2 \<and>
   blasi 1 0 0 0 773 (1 / 100) 3 = Inl UnboundLocalError \<and>
   kn_liden 1 0 773 (1 / 100) 3 = Inl UnboundLocalError \<and>
   liden 1 0 0 0 773 (1 / 100) 3 = Inl UnboundLocalError"
  using bad_selector_fails [of 3 1 0 0 0 773 "1 / 100" 0 0] by simp




text \<open>
  The claim C6 as it is stated, for every run and every step, fails: nothing clamps the
  wood concentration, so a step larger than \<open>1 / K\<close> makes it negative, and the next
  step raises it.  With \<open>T = 773\<close> and \<open>dt = 10\<close> the run of
  \<^verbatim>\<open>kn_liden_1988.py\<close> has wood \<open>1\<close>, then \<open>1 - 10 K < 0\<close>, then
  \<open>(1 - 10 K)\<^sup>2 > 1 - 10 K\<close>.
\<close>

theorem wood_non_increasing_counterexample:
  "kn_liden_series 3 773 10 1 =
     Inr [(1, 0),
          (1 - 10 * liden_K 773, - (10 * liden_K2 773)),
          ((1 - 10 * liden_K 773) * (1 - 10 * liden_K 773),
           - (10 * liden_K2 773) - 10 * liden_K2 773 * (1 - 10 * liden_K 773))] \<and>
   1 - 10 * liden_K 773 < (1 - 10 * liden_K 773) * (1 - 10 * liden_K 773)"
proof -
  have "1 - 10 * liden_K 773 < 0"
    using liden_K_773_gt by simp
  moreover have "0 \<le> (1 - 10 * liden_K 773) * (1 - 10 * liden_K 773)"
    by simp
  ultimately have "1 - 10 * liden_K 773 < (1 - 10 * liden_K 773) * (1 - 10 * liden_K 773)"
    by (rule less_le_trans)
  moreover have "kn_liden_series 3 773 10 1 =
     Inr [(1, 0),
          (1 - 10 * liden_K 773, - (10 * liden_K2 773)),
          ((1 - 10 * liden_K 773) * (1 - 10 * liden_K 773),
           - (10 * liden_K2 773) - 10 * liden_K2 773 * (1 - 10 * liden_K 773))]"
    by (simp add: kn_liden_series_def series_from_def kn_liden_def kn_liden_update_def
        Let_def numeral_2_eq_2 algebra_simps)
  ultimately show ?thesis
    by blast
qed

text \<open>
  C6 (amended).  For \<open>T > 0\<close> and \<open>dt \<ge> 0\<close>: every step of \<^verbatim>\<open>blasi\<close>, of either
  \<^verbatim>\<open>liden\<close> and of \<^verbatim>\<open>liden2\<close> whose input wood is non-negative returns a
  wood value less than or equal to the input wood.  In a run of a driver whose step
  satisfies \<open>K * dt \<le> 1\<close>, with \<open>K\<close> the wood rate constant (\<open>K1 + K2 + K3\<close> for Blasi,
  \<open>K\<close> for Liden), wood stays non-negative and the wood series is non-increasing.
\<close>

theorem wood_non_increasing:
  assumes "0 < T" and "0 \<le> dt"
  shows "(0 \<le> wood \<longrightarrow>
            (\<forall>r. blasi wood gas tar char T dt s = Inr r \<longrightarrow> fst r \<le> wood) \<and>
            (\<forall>r. kn_liden wood tar T dt s = Inr r \<longrightarrow> fst r \<le> wood) \<and>
            (\<forall>r. liden wood gas1 tar gaschar T dt s = Inr r \<longrightarrow> fst r \<le> wood) \<and>
            (\<forall>r. liden2 wood gas1 tar gaschar gas char T dt = Inr r \<longrightarrow> fst r \<le> wood)) \<and>
         ((blasi_K1 T + blasi_K2 T + blasi_K3 T) * dt \<le> 1 \<longrightarrow>
            (\<forall>xs. blasi_series n T dt s = Inr xs \<longrightarrow>
                  sorted_wrt (\<lambda>a b. fst b \<le> fst a) xs \<and> (\<forall>x\<in>set xs. 0 \<le> fst x))) \<and>
         (liden_K T * dt \<le> 1 \<longrightarrow>
            (\<forall>xs. kn_liden_series n T dt s = Inr xs \<longrightarrow>
                  sorted_wrt (\<lambda>a b. fst b \<le> fst a) xs \<and> (\<forall>x\<in>set xs. 0 \<le> fst x)) \<and>
            (\<forall>xs. liden_series n T dt s = Inr xs \<longrightarrow>
                  sorted_wrt (\<lambda>a b. fst b \<le> fst a) xs \<and> (\<forall>x\<in>set xs. 0 \<le> fst x)) \<and>
            (\<forall>xs. liden2_series n T dt = Inr xs \<longrightarrow>
                  sorted_wrt (\<lambda>a b. fst b \<le> fst a) xs \<and> (\<forall>x\<in>set xs. 0 \<le> fst x)))"
proof -
  note dt = assms(2)
  have step: "0 \<le> wood \<longrightarrow>
            (\<forall>r. blasi wood gas tar char T dt s = Inr r \<longrightarrow> fst r \<le> wood) \<and>
            (\<forall>r. kn_liden wood tar T dt s = Inr r \<longrightarrow> fst r \<le> wood) \<and>
            (\<forall>r. liden wood gas1 tar gaschar T dt s = Inr r \<longrightarrow> fst r \<le> wood) \<and>
            (\<forall>r. liden2 wood gas1 tar gaschar gas char T dt = Inr r \<longrightarrow> fst r \<le> wood)"
  proof (intro conjI impI allI)
    fix r :: "real \<times> real \<times> real \<times> real"
    assume w: "0 \<le> wood" and r: "blasi wood gas tar char T dt s = Inr r"
    show "fst r \<le> wood"
      unfolding blasi_wood [OF r] by (rule euler_step_le [OF blasi_K_nonneg w dt])
  next
    fix r :: "real \<times> real"
    assume w: "0 \<le> wood" and r: "kn_liden wood tar T dt s = Inr r"
    show "fst r \<le> wood"
      unfolding kn_liden_wood [OF r] by (rule euler_step_le [OF liden_K_nonneg w dt])
  next
    fix r :: "real \<times> real \<times> real \<times> real"
    assume w: "0 \<le> wood" and r: "liden wood gas1 tar gaschar T dt s = Inr r"
    show "fst r \<le> wood"
      unfolding liden_wood [OF r] by (rule euler_step_le [OF liden_K_nonneg w dt])
  next
    fix r :: "real \<times> real \<times> real \<times> real \<times> real \<times> real"
    assume w: "0 \<le> wood" and r: "liden2 wood gas1 tar gaschar gas char T dt = Inr r"
    show "fst r \<le> wood"
      unfolding liden2_wood [OF r] by (rule euler_step_le [OF liden_K_nonneg w dt])
  qed
  have run_blasi: "(blasi_K1 T + blasi_K2 T + blasi_K3 T) * dt \<le> 1 \<longrightarrow>
            (\<forall>xs. blasi_series n T dt s = Inr xs \<longrightarrow>
                  sorted_wrt (\<lambda>a b. fst b \<le> fst a) xs \<and> (\<forall>x\<in>set xs. 0 \<le> fst x))"
  proof (intro impI allI)
    fix xs
    assume "(blasi_K1 T + blasi_K2 T + blasi_K3 T) * dt \<le> 1"
      and "blasi_series n T dt s = Inr xs"
    then show "sorted_wrt (\<lambda>a b. fst b \<le> fst a) xs \<and> (\<forall>x\<in>set xs. 0 \<le> fst x)"
      by (rule blasi_series_sorted [OF dt])
  qed
  have run_liden: "liden_K T * dt \<le> 1 \<longrightarrow>
            (\<forall>xs. kn_liden_series n T dt s = Inr xs \<longrightarrow>
                  sorted_wrt (\<lambda>a b. fst b \<le> fst a) xs \<and> (\<forall>x\<in>set xs. 0 \<le> fst x)) \<and>
            (\<forall>xs. liden_series n T dt s = Inr xs \<longrightarrow>
                  sorted_wrt (\<lambda>a b. fst b \<le> fst a) xs \<and> (\<forall>x\<in>set xs. 0 \<le> fst x)) \<and>
            (\<forall>xs. liden2_series n T dt = Inr xs \<longrightarrow>
                  sorted_wrt (\<lambda>a b. fst b \<le> fst a) xs \<and> (\<forall>x\<in>set xs. 0 \<le> fst x))"
  proof (rule impI, intro conjI allI impI)
    fix xs
    assume "liden_K T * dt \<le> 1" and "kn_liden_series n T dt s = Inr xs"
    then have "sorted_wrt (\<lambda>a b. fst b \<le> fst a) xs \<and> (\<forall>x\<in>set xs. 0 \<le> fst x)"
      by (rule kn_liden_series_sorted [OF dt])
    then show "sorted_wrt (\<lambda>a b. fst b \<le> fst a) xs" and "\<forall>x\<in>set xs. 0 \<le> fst x"
      by simp_all
  next
    fix xs
    assume "liden_K T * dt \<le> 1" and "liden_series n T dt s = Inr xs"
    then have "sorted_wrt (\<lambda>a b. fst b \<le> fst a) xs \<and> (\<forall>x\<in>set xs. 0 \<le> fst x)"
      by (rule liden_series_sorted [OF dt])
    then show "sorted_wrt (\<lambda>a b. fst b \<le> fst a) xs" and "\<forall>x\<in>set xs. 0 \<le> fst x"
      by simp_all
  next
    fix xs
    assume "liden_K T * dt \<le> 1" and "liden2_series n T dt = Inr xs"
    then have "sorted_wrt (\<lambda>a b. fst b \<le> fst a) xs \<and> (\<forall>x\<in>set xs. 0 \<le> fst x)"
      by (rule liden2_series_sorted [OF dt])
    then show "sorted_wrt (\<lambda>a b. fst b \<le> fst a) xs" and "\<forall>x\<in>set xs. 0 \<le> fst x"
      by simp_all
  qed
  show ?thesis
    by (rule conjI [OF step conjI [OF run_blasi run_liden]])
qed

theorem wood_non_increasing_witness:
  "(0::real) < 773 \<and> (0::real) \<le> 1 / 100 \<and> (0::real) \<le> 1 \<and>
   (blasi_K1 773 + blasi_K2 773 + blasi_K3 773) * (1 / 100) \<le> 1 \<and>
   liden_K 773 * (1 / 100) \<le> 1 \<and>
   (\<exists>r. blasi 1 0 0 0 773 (1 / 100) 2 = Inr r \<and> fst r \<le> 1) \<and>
   (\<exists>r. liden 1 0 0 0 773 (1 / 100) 2 = Inr r \<and> fst r \<le> 1) \<and>
   (\<exists>xs. blasi_series 2500 773 (1 / 100) 2 = Inr xs \<and> length xs = 2500 \<and>
         sorted_wrt (\<lambda>a b. fst b \<le> fst a) xs \<and> (\<forall>x\<in>set xs. 0 \<le> fst x)) \<and>
   (\<exists>xs. liden_series 2500 773 (1 / 100) 2 = Inr xs \<and> length xs = 2500 \<and>
         sorted_wrt (\<lambda>a b. fst b \<le> fst a) xs \<and> (\<forall>x\<in>set xs. 0 \<le> fst x))"
proof -
  have T: "(0::real) < 773"
    by simp
  have dt: "(0::real) \<le> 1 / 100"
    by simp
  have kb: "(blasi_K1 773 + blasi_K2 773 + blasi_K3 773) * (1 / 100) \<le> 1"
    using blasi_K_773_le by simp
  have kl: "liden_K 773 * (1 / 100) \<le> 1"
    using liden_K_773_le by simp
  note main = wood_non_increasing [OF T dt, of 1 0 0 0 2 0 0 2500]
  obtain rb where rb: "blasi 1 0 0 0 773 (1 / 100) 2 = Inr rb"
    using blasi_returns [of 773 2 1 0 0 0 "1 / 100"] by auto
  obtain rl where rl: "liden 1 0 0 0 773 (1 / 100) 2 = Inr rl"
    using liden_returns [of 773 2 1 0 0 0 "1 / 100"] by auto
  obtain xb where xb: "blasi_series 2500 773 (1 / 100) 2 = Inr xb" "length xb = 2500"
    using blasi_series_mass [of 773 2 2500 "1 / 100"] by auto
  obtain xl where xl: "liden_series 2500 773 (1 / 100) 2 = Inr xl" "length xl = 2500"
    using liden_series_mass [of 773 2 2500 "1 / 100"] by auto
  from main rb have "fst rb \<le> 1"
    by simp
  moreover from main rl have "fst rl \<le> 1"
    by simp
  moreover from main kb xb have
    "sorted_wrt (\<lambda>a b. fst b \<le> fst a) xb \<and> (\<forall>x\<in>set xb. 0 \<le> fst x)"
    by blast
  moreover from main kl xl have
    "sorted_wrt (\<lambda>a b. fst b \<le> fst a) xl \<and> (\<forall>x\<in>set xl. 0 \<le> fst x)"
    by blast
  ultimately show ?thesis
    using T dt kb kl rb rl xb xl by simp
qed

text \<open>
  The claim C7 as it is stated, for every variant and every input state, fails for
  \<^verbatim>\<open>liden\<close> with \<open>s = 1\<close>: with all four rate constants 0 the step still returns
  \<^verbatim>\<open>ngas1 = 0\<close>, so an input \<open>gas1 = 1\<close> is not returned unchanged.
\<close>

theorem zero_rates_counterexample:
  "liden_update 0 0 0 0 1 1 0 0 1 1 = Inr (1, 0, 0, 0) \<and>
   (1::real, 0::real, 0::real, 0::real) \<noteq> (1, 1, 0, 0)"
  by (simp add: liden_update_def)

text \<open>
  C7 (amended).  With all rate constants 0: one step of \<^verbatim>\<open>blasi\<close> (\<open>s = 1\<close> or
  \<open>s = 2\<close>) and one step of \<^verbatim>\<open>liden\<close> with \<open>s = 2\<close> return every species
  unchanged, whatever the input state; \<^verbatim>\<open>liden\<close> with \<open>s = 1\<close> returns wood, tar
  and gaschar unchanged and \<open>gas1 = 0\<close>; \<^verbatim>\<open>liden2\<close> returns wood, gas1, tar and
  gaschar unchanged, \<open>gas = gas1 + g3 * gaschar\<close> and \<open>char = c3 * gaschar\<close>.  So in a run
  from the initial state (wood 1, every other species 0) every species stays at its
  initial value across all steps, for every one of these variants.
\<close>

theorem zero_rates_fixpoint:
  "(s = 1 \<or> s = 2 \<longrightarrow>
      blasi_update 0 0 0 0 0 wood gas tar char dt s = Inr (wood, gas, tar, char)) \<and>
   liden_update 0 0 0 0 wood gas1 tar gaschar dt 2 = Inr (wood, gas1, tar, gaschar) \<and>
   liden_update 0 0 0 0 wood gas1 tar gaschar dt 1 = Inr (wood, 0, tar, gaschar) \<and>
   liden2_update 0 0 0 0 wood gas1 tar gaschar gas char dt =
     (wood, gas1, tar, gaschar, gas1 + g3 * gaschar, c3 * gaschar) \<and>
   (s = 1 \<or> s = 2 \<longrightarrow>
      series_from (\<lambda>(wood, gas, tar, char). blasi_update 0 0 0 0 0 wood gas tar char dt s)
        n (1, 0, 0, 0) = Inr (replicate n (1, 0, 0, 0))) \<and>
   (s = 1 \<or> s = 2 \<longrightarrow>
      series_from (\<lambda>(wood, gas1, tar, gaschar). liden_update 0 0 0 0 wood gas1 tar gaschar dt s)
        n (1, 0, 0, 0) = Inr (replicate n (1, 0, 0, 0))) \<and>
   series_from (\<lambda>(wood, gas1, tar, gaschar, gas, char).
                  Inr (liden2_update 0 0 0 0 wood gas1 tar gaschar gas char dt))
     n (1, 0, 0, 0, 0, 0) = (Inr (replicate n (1, 0, 0, 0, 0, 0)) ::
       py_error + (real \<times> real \<times> real \<times> real \<times> real \<times> real) list)"
proof (intro conjI impI)
  assume "s = 1 \<or> s = 2"
  then show "blasi_update 0 0 0 0 0 wood gas tar char dt s = Inr (wood, gas, tar, char)"
    by (rule blasi_update_zero)
next
  show "liden_update 0 0 0 0 wood gas1 tar gaschar dt 2 = Inr (wood, gas1, tar, gaschar)"
    by (rule liden_update_zero_2)
next
  show "liden_update 0 0 0 0 wood gas1 tar gaschar dt 1 = Inr (wood, 0, tar, gaschar)"
    by (rule liden_update_zero_1)
next
  show "liden2_update 0 0 0 0 wood gas1 tar gaschar gas char dt =
     (wood, gas1, tar, gaschar, gas1 + g3 * gaschar, c3 * gaschar)"
    by (rule liden2_update_zero)
next
  assume "s = 1 \<or> s = 2"
  then show "series_from (\<lambda>(wood, gas, tar, char). blasi_update 0 0 0 0 0 wood gas tar char dt s)
        n (1, 0, 0, 0) = Inr (replicate n (1, 0, 0, 0))"
    by (intro series_from_fixpoint) (simp add: blasi_update_zero)
next
  assume "s = 1 \<or> s = 2"
  then show "series_from (\<lambda>(wood, gas1, tar, gaschar). liden_update 0 0 0 0 wood gas1 tar gaschar dt s)
        n (1, 0, 0, 0) = Inr (replicate n (1, 0, 0, 0))"
    by (intro series_from_fixpoint) (auto simp add: liden_update_zero_1 liden_update_zero_2)
next
  show "series_from (\<lambda>(wood, gas1, tar, gaschar, gas, char).
                  Inr (liden2_update 0 0 0 0 wood gas1 tar gaschar gas char dt))
     n (1, 0, 0, 0, 0, 0) = (Inr (replicate n (1, 0, 0, 0, 0, 0)) ::
       py_error + (real \<times> real \<times> real \<times> real \<times> real \<times> real) list)"
    by (intro series_from_fixpoint) (simp add: liden2_update_zero)
qed

theorem zero_rates_fixpoint_witness:
  "((1::int) = 1 \<or> (1::int) = 2) \<and>
   blasi_update 0 0 0 0 0 (1 / 2) (1 / 4) (1 / 8) (1 / 8) (1 / 100) 1 =
     Inr (1 / 2, 1 / 4, 1 / 8, 1 / 8) \<and>
   series_from (\<lambda>(wood, gas, tar, char). blasi_update 0 0 0 0 0 wood gas tar char (1 / 100) 1)
     2500 (1, 0, 0, 0) = Inr (replicate 2500 (1, 0, 0, 0)) \<and>
   series_from (\<lambda>(wood, gas1, tar, gaschar).
                  liden_update 0 0 0 0 wood gas1 tar gaschar (1 / 100) 1)
     2500 (1, 0, 0, 0) = Inr (replicate 2500 (1, 0, 0, 0))"
  using zero_rates_fixpoint [of 1 "1 / 2" "1 / 4" "1 / 8" "1 / 8" "1 / 100" 0 0 2500]
  by simp

text \<open>
  C9.  For \<open>dt = 0.01\<close> and \<open>tmax = 25\<close> the time vector has 2500 points, from 0 to
  25 inclusive.  Its spacing is therefore \<open>25 / 2499\<close> and not \<open>dt\<close>: the time paired
  with index 1 is \<open>25 / 2499\<close>, not \<open>1 * dt\<close>, and the time paired with index 2499 is
  25, not \<open>2499 * dt = 24.99\<close>.
\<close>

theorem time_vector_spacing:
  "\<exists>ts. time_vector 25 (1 / 100) = Inr ts \<and> length ts = 2500 \<and>
        ts ! 0 = 0 \<and> ts ! 1 = 25 / 2499 \<and> ts ! 1 \<noteq> 1 * (1 / 100) \<and> ts ! 2499 = 25"
  by (simp add: time_vector_def linspace_def py_int_def Let_def)

end
